theory Spec2Isabelle
  imports Main
begin

section \<open>Plugin registry (class VK: extend, pluginInQueue, hasPlugin, setup)\<close>

text \<open>
  Option objects (\<^verbatim>\<open>{ [key: string]: any }\<close>) are finite maps from keys to values;
  object spread \<^verbatim>\<open>{...a, ...b}\<close> is map override \<open>a ++ b\<close>.
\<close>

type_synonym options = "string \<rightharpoonup> string"

text \<open>
  Modelled from the spec: the class Plugin, imported from \<^verbatim>\<open>./structures/plugin/plugin\<close>,
  whose instance \<^verbatim>\<open>new plugin(this, pluginOptions)\<close> the method \<^verbatim>\<open>extend\<close> reads. The
  spec's plugin descriptor has a name (a string), requirements (plugin names) and an
  optional \<open>setupAfter\<close> (a plugin name). \<open>None\<close> is a field that is \<^verbatim>\<open>undefined\<close>; the
  empty string is falsy. The constructor is taken not to touch the registry.
\<close>

record plugin_instance =
  name :: string
  requirements :: "string list option"
  setupAfter :: "string option"

text \<open>The object literal \<^verbatim>\<open>{ plugin: plugIn, options: pluginOptions, name: plugIn.name }\<close>.\<close>

record queue_entry =
  plugin :: plugin_instance
  options :: options
  entry_name :: string

text \<open>
  An element of a JavaScript array that \<open>indexOf\<close> searches: a string or a queue entry
  object. \<open>pluginsQueueNames\<close> is declared for names, and line 132 splices the entry
  object itself into it.
\<close>

datatype item = Name string | Entry queue_entry

text \<open>The pending result of a call \<^verbatim>\<open>plugin.onEnable(opts)\<close> on the plugin of that name.\<close>

datatype promise = OnEnable string options

datatype registration_error =
    MustHaveUniqueName
  | AlreadyInstalled
  | RequiresPlugin string

record registry =
  pluginsQueue :: "queue_entry list"
  pluginsQueueNames :: "item list"
  plugins :: "string list"
  queuePromises :: "promise list"

text \<open>
  \<^verbatim>\<open>Array.prototype.indexOf\<close> with a string needle. It compares with strict equality,
  so only a string element equal to the needle matches; an object element never does.
  The result is the first matching index, or -1.
\<close>

fun strict_eq_string :: "item \<Rightarrow> string \<Rightarrow> bool" where
  "strict_eq_string (Name s) needle = (s = needle)"
| "strict_eq_string (Entry e) needle = False"

fun indexOf_from :: "item list \<Rightarrow> string \<Rightarrow> int \<Rightarrow> int" where
  "indexOf_from [] needle i = -1"
| "indexOf_from (x # xs) needle i =
     (if strict_eq_string x needle then i else indexOf_from xs needle (i + 1))"

definition indexOf :: "item list \<Rightarrow> string \<Rightarrow> int" where
  "indexOf xs needle = indexOf_from xs needle 0"

text \<open>\<^verbatim>\<open>xs.splice(i, 0, x)\<close> for an index \<open>0 \<le> i \<le> length xs\<close>: insert before position \<open>i\<close>.\<close>

definition splice :: "int \<Rightarrow> 'a \<Rightarrow> 'a list \<Rightarrow> 'a list" where
  "splice i x xs = take (nat i) xs @ [x] @ drop (nat i) xs"

definition truthy_string :: "string option \<Rightarrow> bool" where
  "truthy_string v = (case v of None \<Rightarrow> False | Some s \<Rightarrow> s \<noteq> [])"

definition hasPlugin :: "registry \<Rightarrow> string \<Rightarrow> bool" where
  "hasPlugin s pluginName = (indexOf (map Name (plugins s)) pluginName \<noteq> -1)"

definition pluginInQueue :: "registry \<Rightarrow> plugin_instance \<Rightarrow> bool" where
  "pluginInQueue s p = (indexOf (pluginsQueueNames s) (name p) \<noteq> -1)"

text \<open>The loop over \<open>plugIn.requirements\<close> (lines 121-125): the first requirement that is
  neither installed nor among the queued names raises.\<close>

fun check_requirements :: "registry \<Rightarrow> string list \<Rightarrow> registration_error option" where
  "check_requirements s [] = None"
| "check_requirements s (requiredPluginName # rest) =
     (if hasPlugin s requiredPluginName then check_requirements s rest
      else if indexOf (pluginsQueueNames s) requiredPluginName \<noteq> -1 then check_requirements s rest
      else Some (RequiresPlugin requiredPluginName))"

definition push_entry :: "queue_entry \<Rightarrow> registry \<Rightarrow> registry" where
  "push_entry newPlugin s =
     s\<lparr>pluginsQueue := pluginsQueue s @ [newPlugin],
       pluginsQueueNames := pluginsQueueNames s @ [Name (entry_name newPlugin)]\<rparr>"

text \<open>
  The method \<^verbatim>\<open>extend\<close> (lines 108-150), here \<open>vk_extend\<close>. The result pairs what the call returns (a raised error, or
  the returned value: \<open>None\<close> for \<^verbatim>\<open>undefined\<close>, \<open>Some\<close> of the enable promise) with the
  registry after the call, which on a raise is whatever the statements before it left.
\<close>

definition vk_extend ::
  "registry \<Rightarrow> plugin_instance \<Rightarrow> options \<Rightarrow> bool \<Rightarrow> (registration_error + promise option) \<times> registry"
where
  "vk_extend s plugIn pluginOptions addInQueue =
    (if name plugIn = [] \<or> name plugIn = ''defaultPlugin'' then (Inl MustHaveUniqueName, s)
     else if hasPlugin s (name plugIn) then (Inl AlreadyInstalled, s)
     else
       let newPlugin = \<lparr>plugin = plugIn, options = pluginOptions, entry_name = name plugIn\<rparr> in
       case check_requirements s (case requirements plugIn of None \<Rightarrow> [] | Some rs \<Rightarrow> rs) of
         Some e \<Rightarrow> (Inl e, s)
       | None \<Rightarrow>
          let s1 =
                (if truthy_string (setupAfter plugIn) \<and> addInQueue then
                   (let setupAfterIndex =
                          indexOf (map Entry (pluginsQueue s)) (the (setupAfter plugIn))
                    in if setupAfterIndex \<noteq> -1
                       then s\<lparr>pluginsQueue := splice setupAfterIndex newPlugin (pluginsQueue s),
                              pluginsQueueNames :=
                                splice setupAfterIndex (Entry newPlugin) (pluginsQueueNames s)\<rparr>
                       else s)
                 else s);
              s2 =
                (if \<not> truthy_string (setupAfter plugIn) \<and> addInQueue
                 then push_entry newPlugin s1 else s1)
          in
            if \<not> pluginInQueue s2 plugIn \<and> addInQueue then (Inr None, push_entry newPlugin s2)
            else if \<not> addInQueue then
              (let enable = OnEnable (name plugIn) pluginOptions
               in (Inr (Some enable),
                   s2\<lparr>plugins := plugins s2 @ [name plugIn],
                      queuePromises := queuePromises s2 @ [enable]\<rparr>))
            else (Inr None, s2))"

text \<open>
  The method \<^verbatim>\<open>setup\<close> (lines 171-185), here \<open>vk_setup\<close>. It returns the registry and the array handed to
  \<^verbatim>\<open>Promise.all\<close> (empty on the early return): one \<open>onEnable\<close> call per queue entry, in
  queue order, followed by \<open>queuePromises\<close>.
\<close>

definition enable_entry :: "(string \<rightharpoonup> options) \<Rightarrow> queue_entry \<Rightarrow> promise" where
  "enable_entry globalPluginOptions e =
     OnEnable (name (plugin e))
       (options e ++ (case globalPluginOptions (name (plugin e)) of
                        None \<Rightarrow> Map.empty | Some ov \<Rightarrow> ov))"

definition vk_setup :: "(string \<rightharpoonup> options) \<Rightarrow> registry \<Rightarrow> registry \<times> promise list" where
  "vk_setup globalPluginOptions s =
    (if length (pluginsQueue s) = 0 then (s, [])
     else
       let initers = pluginsQueue s;
           s' = s\<lparr>plugins := plugins s @ map (\<lambda>e. name (plugin e)) initers\<rparr>
       in (s', map (enable_entry globalPluginOptions) initers @ queuePromises s))"

text \<open>
  The two queue arrays are meant to run in parallel: the queued names are the names of
  the queue's entries, in order.
\<close>

definition queue_names_parallel :: "registry \<Rightarrow> bool" where
  "queue_names_parallel s =
     (pluginsQueueNames s = map (\<lambda>e. Name (entry_name e)) (pluginsQueue s))"

text \<open>The registry before any call of \<open>vk_extend\<close>.\<close>

definition empty_registry :: registry where
  "empty_registry = \<lparr>pluginsQueue = [], pluginsQueueNames = [], plugins = [], queuePromises = []\<rparr>"

text \<open>
  Example plugins and registries: a plugin \<open>X\<close> without requirements, a plugin that is to
  be set up after \<open>X\<close>, a plugin that requires \<open>X\<close>, and the registries reached from the
  empty one by registering \<open>X\<close> deferred (queued) and immediately (installed).
\<close>

definition plugin_X :: plugin_instance where
  "plugin_X = \<lparr>name = ''X'', requirements = None, setupAfter = None\<rparr>"

definition plugin_after_X :: plugin_instance where
  "plugin_after_X = \<lparr>name = ''Y'', requirements = None, setupAfter = Some ''X''\<rparr>"

definition plugin_needs_X :: plugin_instance where
  "plugin_needs_X = \<lparr>name = ''Z'', requirements = Some [''X''], setupAfter = None\<rparr>"

definition queued_X :: registry where
  "queued_X = snd (vk_extend empty_registry plugin_X Map.empty True)"

definition installed_X :: registry where
  "installed_X = snd (vk_extend empty_registry plugin_X Map.empty False)"

text \<open>The registry reached from \<open>queued_X\<close> by registering, deferred, the plugin that is to
  be set up after \<open>X\<close>: two plugins are queued, \<open>X\<close> first.\<close>

definition queued_X_then_Y :: registry where
  "queued_X_then_Y = snd (vk_extend queued_X plugin_after_X Map.empty True)"

section \<open>Response classification (class API: checkOnErrors, createResponse)\<close>

text \<open>
  A response body as the HTTP client delivers it: parsed JSON, or a string when the body
  was not JSON. Numbers are the integers (error codes); an object is its list of
  properties.
\<close>

datatype json =
    JUndefined
  | JNull
  | JBool bool
  | JNum int
  | JStr string
  | JArr "json list"
  | JObj "(string \<times> json) list"

fun truthy :: "json \<Rightarrow> bool" where
  "truthy JUndefined = False"
| "truthy JNull = False"
| "truthy (JBool b) = b"
| "truthy (JNum n) = (n \<noteq> 0)"
| "truthy (JStr s) = (s \<noteq> [])"
| "truthy (JArr xs) = True"
| "truthy (JObj kvs) = True"

text \<open>
  Reading a data property \<^verbatim>\<open>v.k\<close> of a value that is neither \<^verbatim>\<open>null\<close> nor
  \<^verbatim>\<open>undefined\<close>: an object yields the property or \<^verbatim>\<open>undefined\<close>; a string, number or
  boolean has none of the properties read here.
\<close>

fun field :: "json \<Rightarrow> string \<Rightarrow> json" where
  "field (JObj kvs) k = (case map_of kvs k of None \<Rightarrow> JUndefined | Some v \<Rightarrow> v)"
| "field v k = JUndefined"

text \<open>The operator \<^verbatim>\<open>a || b\<close>.\<close>

definition or_else :: "json \<Rightarrow> json \<Rightarrow> json" where
  "or_else a b = (if truthy a then a else b)"

text \<open>The part \<^verbatim>\<open>options.errors\<close> of the client's options, and its defaults (lines 32-37).\<close>

record errors_options =
  captchaError :: string
  captchaErrorCode :: int
  validationError :: string
  redirectErrorCode :: int

definition default_errors :: errors_options where
  "default_errors =
     \<lparr>captchaError = ''need_captcha'', captchaErrorCode = 14,
      validationError = ''need_validation'', redirectErrorCode = 17\<rparr>"

text \<open>
  The object \<open>errorData\<close> without its \<open>request\<close> and \<open>response\<close> fields, which are the
  arguments passed through.
\<close>

record errorData =
  code :: json
  errorType :: json

text \<open>
  What \<open>checkOnErrors\<close> throws: each exception with the arguments its constructor is
  called with (the message, then the fields of the data object). \<open>TypeError\<close> is the
  engine's error for reading a property of \<^verbatim>\<open>null\<close> or \<^verbatim>\<open>undefined\<close>.
\<close>

datatype failure =
    TypeError
  | RequestParseException (message: json)
  | CaptchaException (message: json) (data: errorData) (captchaSid: json) (captchaImg: json)
  | HaveBanException (message: json) (data: errorData) (banInfo: json) (redirectUri: json)
  | TwoFactorException (message: json) (data: errorData) (validationType: json)
      (phoneMask: json) (redirectUri: json) (validationSid: json)
  | NeedValidationException (message: json) (data: errorData)
  | RedirectURIException (message: json) (data: errorData) (redirectUri: json)
  | APIException (message: json) (data: errorData)

fun is_string :: "json \<Rightarrow> bool" where
  "is_string (JStr s) = True"
| "is_string v = False"

fun nullish :: "json \<Rightarrow> bool" where
  "nullish JUndefined = True"
| "nullish JNull = True"
| "nullish v = False"

text \<open>
  Lines 101-121: the three variables start \<^verbatim>\<open>undefined\<close>; the if-chain assigns them, and
  the second \<open>if\<close> assigns them again when a top-level description is truthy.
\<close>

definition extract_error :: "json \<Rightarrow> json \<times> json \<times> json" where
  "extract_error res =
    (let err = field res ''error'';
         first =
           (if truthy err \<and> truthy (field err ''message'') then
              (field err ''error_code'', field err ''message'',
               or_else (field err ''error_type'') (JStr []))
            else if truthy err \<and> truthy (field err ''error_msg'') then
              (field err ''error_code'', field err ''error_msg'',
               or_else (field err ''error_type'') (JStr []))
            else if truthy (field res ''error_description'') then
              (field res ''error_code'', field res ''error_description'',
               or_else (field res ''error_type'') (JStr []))
            else (JUndefined, JUndefined, JUndefined))
     in if truthy err \<and> truthy (field res ''error_description'') then
          (err, field res ''error_description'', or_else (field res ''error_type'') (JStr []))
        else first)"

text \<open>\<open>checkOnErrors\<close> (lines 90-172) on \<open>res = response.data\<close>: \<open>Inl\<close> is the exception
  thrown, \<open>Inr ()\<close> the plain return.\<close>

definition checkOnErrors :: "errors_options \<Rightarrow> json \<Rightarrow> failure + unit" where
  "checkOnErrors opts res =
    (if is_string res then
       Inl (RequestParseException (JStr ''Server responded with bad data (not a json)''))
     else if nullish res then Inl TypeError
     else if truthy (field res ''error'') then
       (case extract_error res of (errorCode, errorMessage, errorTyp) \<Rightarrow>
         let err = field res ''error'';
             errorData = \<lparr>code = errorCode, errorType = errorTyp\<rparr>
         in
           if err = JStr (captchaError opts)
              \<or> field err ''error_code'' = JNum (captchaErrorCode opts) then
             Inl (CaptchaException errorMessage errorData
                    (field err ''captcha_sid'') (field err ''captcha_img''))
           else if err = JStr (validationError opts) then
             (if truthy (field res ''ban_info'') then
                Inl (HaveBanException errorMessage errorData (field res ''ban_info'')
                       (or_else (field res ''redirect_uri'') JNull))
              else if truthy (field res ''validation_type'') then
                Inl (TwoFactorException errorMessage errorData (field res ''validation_type'')
                       (or_else (field res ''phone_mask'') (JStr []))
                       (or_else (field res ''redirect_uri'') (JStr []))
                       (or_else (field res ''validation_sid'') (JStr [])))
              else Inl (NeedValidationException errorMessage errorData))
           else if field err ''error_code'' = JNum (redirectErrorCode opts) then
             Inl (RedirectURIException errorMessage errorData (field res ''redirect_uri''))
           else Inl (APIException errorMessage errorData))
     else Inr ())"

text \<open>\<open>createResponse\<close> (lines 79-83): the payload after a successful check.\<close>

definition createResponse :: "errors_options \<Rightarrow> json \<Rightarrow> failure + json" where
  "createResponse opts res =
    (case checkOnErrors opts res of
       Inl e \<Rightarrow> Inl e
     | Inr u \<Rightarrow> Inr (if truthy (field res ''response'') then field res ''response'' else res))"

section \<open>Exception handlers (class VK: handleException, processHandlers)\<close>

text \<open>
  An exception type is a constructor: an identity, and the constructor it extends (its
  prototype), if any. \<open>a.isPrototypeOf(b)\<close> holds when \<open>a\<close> occurs on the prototype chain
  of \<open>b\<close>, which starts at the prototype of \<open>b\<close>, not at \<open>b\<close> itself.
\<close>

datatype ctor = Ctor (ctor_id: nat) (proto: "ctor option")

fun isPrototypeOf :: "ctor \<Rightarrow> ctor \<Rightarrow> bool" where
  "isPrototypeOf a (Ctor i None) = False"
| "isPrototypeOf a (Ctor i (Some p)) = (a = p \<or> isPrototypeOf a p)"

text \<open>
  Values a handler can return. An object is known by its reference, so \<^verbatim>\<open>!==\<close> on
  objects compares references; the error instance handed to \<open>processHandlers\<close> is such
  a reference.
\<close>

type_synonym ref = nat

datatype jsvalue =
    VUndefined
  | VNull
  | VBool bool
  | VNum int
  | VStr string
  | VObj ref

fun truthy_value :: "jsvalue \<Rightarrow> bool" where
  "truthy_value VUndefined = False"
| "truthy_value VNull = False"
| "truthy_value (VBool b) = b"
| "truthy_value (VNum n) = (n \<noteq> 0)"
| "truthy_value (VStr s) = (s \<noteq> [])"
| "truthy_value (VObj r) = True"

text \<open>
  A handler maps the error instance and the exception type to the value that
  \<^verbatim>\<open>await handler(error, exceptionType)\<close> yields.
\<close>

type_synonym handler = "ref \<Rightarrow> ctor \<Rightarrow> jsvalue"

text \<open>
  \<open>handlers\<close> is the WeakMap from exception types to handler arrays;
  \<open>handlersExceptions\<close> is the Set of types, which iterates in insertion order.
\<close>

record handler_registry =
  handlers :: "ctor \<rightharpoonup> handler list"
  handlersExceptions :: "ctor list"

definition empty_handlers :: handler_registry where
  "empty_handlers = \<lparr>handlers = Map.empty, handlersExceptions = []\<rparr>"

definition set_add :: "'a \<Rightarrow> 'a list \<Rightarrow> 'a list" where
  "set_add x xs = (if x \<in> set xs then xs else xs @ [x])"

definition exceptionHandlers :: "handler_registry \<Rightarrow> ctor \<Rightarrow> handler list" where
  "exceptionHandlers s exceptionType =
     (case handlers s exceptionType of None \<Rightarrow> [] | Some hs \<Rightarrow> hs)"

definition handleException ::
  "handler_registry \<Rightarrow> ctor \<Rightarrow> handler \<Rightarrow> handler_registry \<times> (ctor \<times> nat)" where
  "handleException s exceptionType h =
    (let exceptionHandlers' = exceptionHandlers s exceptionType @ [h]
     in (s\<lparr>handlersExceptions := set_add exceptionType (handlersExceptions s),
           handlers := (handlers s)(exceptionType \<mapsto> exceptionHandlers')\<rparr>,
         (exceptionType, length exceptionHandlers' - 1)))"

definition handleExceptionFirstly ::
  "handler_registry \<Rightarrow> ctor \<Rightarrow> handler \<Rightarrow> handler_registry \<times> (ctor \<times> nat)" where
  "handleExceptionFirstly s exceptionType h =
    (let exceptionHandlers' = h # exceptionHandlers s exceptionType
     in (s\<lparr>handlersExceptions := set_add exceptionType (handlersExceptions s),
           handlers := (handlers s)(exceptionType \<mapsto> exceptionHandlers')\<rparr>,
         (exceptionType, 0)))"

text \<open>
  The state of one run of the promise executor in \<open>processHandlers\<close>: the flag
  \<open>handled\<close>, how the promise stands, and a log of the handler calls of line 279, each
  as the type whose list the handler is in and its index there.
\<close>

datatype settlement = Pending | Resolved jsvalue | Rejected ref

record run_state =
  handled :: bool
  settled :: settlement
  calls :: "(ctor \<times> nat) list"

text \<open>\<open>resolve\<close> and \<open>reject\<close> settle a promise that is pending and do nothing to one
  already settled.\<close>

definition resolve :: "jsvalue \<Rightarrow> run_state \<Rightarrow> run_state" where
  "resolve v st = (case settled st of Pending \<Rightarrow> st\<lparr>settled := Resolved v\<rparr> | _ \<Rightarrow> st)"

definition reject :: "ref \<Rightarrow> run_state \<Rightarrow> run_state" where
  "reject e st = (case settled st of Pending \<Rightarrow> st\<lparr>settled := Rejected e\<rparr> | _ \<Rightarrow> st)"

text \<open>The inner loop (lines 278-285); the \<open>break\<close> leaves this loop.\<close>

fun run_handlers :: "ref \<Rightarrow> ctor \<Rightarrow> ctor \<Rightarrow> handler list \<Rightarrow> nat \<Rightarrow> run_state \<Rightarrow> run_state" where
  "run_handlers error exceptionType exceptionTypeHandled [] i st = st"
| "run_handlers error exceptionType exceptionTypeHandled (h # rest) i st =
    (let handlerReturned = h error exceptionType;
         st1 = st\<lparr>calls := calls st @ [(exceptionTypeHandled, i)]\<rparr>
     in if handlerReturned \<noteq> VObj error then
          (let st2 = st1\<lparr>handled := True\<rparr>
           in if truthy_value handlerReturned then resolve handlerReturned st2 else st2)
        else run_handlers error exceptionType exceptionTypeHandled rest (i + 1) st1)"

text \<open>The outer loop over \<open>handlersExceptions\<close> (lines 274-287).\<close>

fun run_types :: "handler_registry \<Rightarrow> ref \<Rightarrow> ctor \<Rightarrow> ctor list \<Rightarrow> run_state \<Rightarrow> run_state" where
  "run_types s error exceptionType [] st = st"
| "run_types s error exceptionType (exceptionTypeHandled # rest) st =
    (if isPrototypeOf exceptionTypeHandled exceptionType \<or> exceptionTypeHandled = exceptionType
     then run_types s error exceptionType rest
            (run_handlers error exceptionType exceptionTypeHandled
               (exceptionHandlers s exceptionTypeHandled) 0 st)
     else run_types s error exceptionType rest st)"

definition processHandlers :: "handler_registry \<Rightarrow> ctor \<Rightarrow> ref \<Rightarrow> run_state" where
  "processHandlers s exceptionType error =
    (let st = run_types s error exceptionType (handlersExceptions s)
                \<lparr>handled = False, settled = Pending, calls = []\<rparr>
     in if \<not> handled st then reject error st else st)"

text \<open>
  Throughout, a handler is a function that returns: a handler that throws, or whose
  promise never settles, is outside this model.

  Example types: a class and a class that extends it; and the registry reached from the
  empty one by \<open>handleException\<close> for the base class and then for the derived class.
\<close>

definition example_Base :: ctor where
  "example_Base = Ctor 0 None"

definition example_Derived :: ctor where
  "example_Derived = Ctor 1 (Some example_Base)"

definition two_types :: "handler \<Rightarrow> handler \<Rightarrow> handler_registry" where
  "two_types h1 h2 =
     fst (handleException (fst (handleException empty_handlers example_Base h1))
            example_Derived h2)"

text \<open>A handler that returns the same value whatever it is given, and the registry in which
  the base class has one handler, which returns the string \<^verbatim>\<open>"x"\<close>.\<close>

definition constant_handler :: "jsvalue \<Rightarrow> handler" where
  "constant_handler v error exceptionType = v"

definition base_with_earlier :: handler_registry where
  "base_with_earlier =
     fst (handleException empty_handlers example_Base (constant_handler (VStr ''x'')))"

section \<open>Composers (class VK: addComposer, use, compose)\<close>

text \<open>
  \<open>composersStack\<close> maps a composer name to its Composer.
\<close>

type_synonym 'm composers = "string \<rightharpoonup> 'm list"

text \<open>
  Modelled from the spec: the class Composer, imported from the library middleware-io.
  The spec's composer is an ordered sequence of middleware functions that is only ever
  appended to: \<^verbatim>\<open>new Composer()\<close> is the empty sequence and \<^verbatim>\<open>composer.use(m)\<close>
  appends \<open>m\<close>.
\<close>

definition composer_use :: "'m list \<Rightarrow> 'm \<Rightarrow> 'm list" where
  "composer_use composer middleware = composer @ [middleware]"

definition getComposer :: "'m composers \<Rightarrow> string \<Rightarrow> 'm list option" where
  "getComposer composersStack composerName = composersStack composerName"

definition hasComposer :: "'m composers \<Rightarrow> string \<Rightarrow> bool" where
  "hasComposer composersStack composerName = (getComposer composersStack composerName \<noteq> None)"

definition addComposer :: "string \<Rightarrow> 'm list \<Rightarrow> 'm composers \<Rightarrow> 'm composers" where
  "addComposer composerName stack composersStack =
    (if \<not> hasComposer composersStack composerName
     then composersStack(composerName \<mapsto> foldl composer_use [] stack)
     else composersStack)"

definition use :: "string \<Rightarrow> 'm \<Rightarrow> 'm composers \<Rightarrow> 'm composers" where
  "use composerName middleware composersStack =
    (case getComposer composersStack composerName of
       Some composer \<Rightarrow> composersStack(composerName \<mapsto> composer_use composer middleware)
     | None \<Rightarrow> addComposer composerName [middleware] composersStack)"

datatype compose_error = ComposerNotCreated

text \<open>
  \<open>compose\<close> (lines 353-360). The run of the composed chain,
  \<^verbatim>\<open>composer.compose()(context, noopNext)\<close>, belongs to the library and is the
  parameter \<open>run\<close>.
\<close>

definition compose ::
  "('m list \<Rightarrow> 'c \<Rightarrow> 'r) \<Rightarrow> 'm composers \<Rightarrow> string \<Rightarrow> 'c \<Rightarrow> compose_error + 'r" where
  "compose run composersStack composerName context =
    (case getComposer composersStack composerName of
       None \<Rightarrow> Inl ComposerNotCreated
     | Some composer \<Rightarrow> Inr (run composer context))"

section \<open>Properties of the plugin registry\<close>

subsection \<open>Facts about indexOf\<close>

lemma indexOf_from_absent:
  "0 \<le> i \<Longrightarrow> (indexOf_from xs n i = -1) = (Name n \<notin> set xs)"
proof (induction xs arbitrary: i)
  case Nil
  then show ?case by simp
next
  case (Cons x xs)
  then show ?case by (cases x) auto
qed

lemma indexOf_absent: "(indexOf xs n = -1) = (Name n \<notin> set xs)"
  by (simp add: indexOf_def indexOf_from_absent)

lemma indexOf_entries: "indexOf (map Entry es) n = -1"
  by (auto simp: indexOf_absent)

lemma hasPlugin_iff: "hasPlugin s n = (n \<in> set (plugins s))"
  by (auto simp: hasPlugin_def indexOf_absent)

lemma pluginInQueue_iff: "pluginInQueue s p = (Name (name p) \<in> set (pluginsQueueNames s))"
  by (simp add: pluginInQueue_def indexOf_absent)

lemma queued_X_eq:
  "queued_X = \<lparr>pluginsQueue = [\<lparr>plugin = plugin_X, options = Map.empty, entry_name = ''X''\<rparr>],
       pluginsQueueNames = [Name ''X''], plugins = [], queuePromises = []\<rparr>"
  by (simp add: queued_X_def vk_extend_def plugin_X_def empty_registry_def hasPlugin_iff
      pluginInQueue_iff truthy_string_def push_entry_def Let_def)

lemma installed_X_eq:
  "installed_X = \<lparr>pluginsQueue = [], pluginsQueueNames = [], plugins = [''X''],
       queuePromises = [OnEnable ''X'' Map.empty]\<rparr>"
  by (simp add: installed_X_def vk_extend_def plugin_X_def empty_registry_def hasPlugin_iff
      pluginInQueue_iff truthy_string_def push_entry_def Let_def)

text \<open>
  Every call keeps the two queue arrays parallel, so on the registries that calls of
  \<open>vk_extend\<close> and \<open>vk_setup\<close> reach from the empty one, a name is among the queued names
  exactly when the queue holds an entry of that name.
\<close>

lemma empty_registry_parallel: "queue_names_parallel empty_registry"
  by (simp add: queue_names_parallel_def empty_registry_def)

lemma vk_extend_parallel:
  "queue_names_parallel s \<Longrightarrow> queue_names_parallel (snd (vk_extend s p opts q))"
  by (auto simp: queue_names_parallel_def vk_extend_def Let_def indexOf_entries push_entry_def
      split: option.splits)

lemma vk_setup_parallel:
  "queue_names_parallel s \<Longrightarrow> queue_names_parallel (fst (vk_setup g s))"
  by (simp add: queue_names_parallel_def vk_setup_def Let_def)

lemma parallel_queued_iff:
  "queue_names_parallel s \<Longrightarrow>
   (Name n \<in> set (pluginsQueueNames s)) = (n \<in> entry_name ` set (pluginsQueue s))"
  by (auto simp: queue_names_parallel_def)

text \<open>A deferred registration that returns has the plugin's name among the queued names
  and installs nothing.\<close>

lemma vk_extend_deferred_success:
  assumes "fst (vk_extend s p opts True) = Inr r"
  shows "Name (name p) \<in> set (pluginsQueueNames (snd (vk_extend s p opts True)))"
    and "plugins (snd (vk_extend s p opts True)) = plugins s"
  using assms
  by (auto simp: vk_extend_def Let_def indexOf_entries pluginInQueue_iff push_entry_def
      split: if_splits option.splits)

lemma vk_extend_missing_requirement:
  assumes "requirements p = Some [X]" "X \<notin> set (plugins s)" "Name X \<notin> set (pluginsQueueNames s)"
  shows "vk_extend s p opts q =
       (Inl (if name p = [] \<or> name p = ''defaultPlugin'' then MustHaveUniqueName
             else if name p \<in> set (plugins s) then AlreadyInstalled
             else RequiresPlugin X), s)"
  using assms by (simp add: vk_extend_def hasPlugin_iff indexOf_absent)

lemma vk_extend_succeeds:
  assumes "name p \<noteq> []" "name p \<noteq> ''defaultPlugin''" "name p \<notin> set (plugins s)"
    and "check_requirements s (case requirements p of None \<Rightarrow> [] | Some rs \<Rightarrow> rs) = None"
  shows "\<exists>r. fst (vk_extend s p opts q) = Inr r"
  using assms by (simp add: vk_extend_def hasPlugin_iff Let_def)

text \<open>
  Whatever the queue holds, a deferred registration with a non-empty \<open>setupAfter\<close> that
  passes the checks appends the new entry: the search of line 129 looks for the name
  among the entry objects of \<open>pluginsQueue\<close>, where strict equality never finds it, so
  the splice of lines 131-132 is not reached and line 142 pushes.
\<close>

lemma vk_extend_setupAfter_appends:
  assumes "name p \<noteq> []" "name p \<noteq> ''defaultPlugin''" "name p \<notin> set (plugins s)"
    and "check_requirements s (case requirements p of None \<Rightarrow> [] | Some rs \<Rightarrow> rs) = None"
    and "setupAfter p = Some X" "X \<noteq> []"
    and "Name (name p) \<notin> set (pluginsQueueNames s)"
  shows "vk_extend s p opts True =
     (Inr None,
      s\<lparr>pluginsQueue := pluginsQueue s @ [\<lparr>plugin = p, options = opts, entry_name = name p\<rparr>],
        pluginsQueueNames := pluginsQueueNames s @ [Name (name p)]\<rparr>)"
  using assms
  by (simp add: vk_extend_def hasPlugin_iff Let_def truthy_string_def indexOf_entries
      pluginInQueue_iff push_entry_def)

text \<open>
  Claim C1, evaluated on the code. \<open>X\<close> is queued at position 0. Registering, deferred, a
  plugin \<open>Y\<close> whose \<open>setupAfter\<close> is \<open>X\<close> returns normally and leaves \<open>X\<close> at position 0
  with \<open>Y\<close> behind it at position 1: \<open>Y\<close> is appended, not spliced in before \<open>X\<close>.
\<close>

theorem vk_extend_setupAfter_queued_target:
  "map entry_name (pluginsQueue queued_X) = [''X''] \<and>
   fst (vk_extend queued_X plugin_after_X Map.empty True) = Inr None \<and>
   map entry_name (pluginsQueue (snd (vk_extend queued_X plugin_after_X Map.empty True)))
     = [''X'', ''Y'']"
  by (simp add: queued_X_eq vk_extend_def plugin_after_X_def hasPlugin_iff indexOf_def
      pluginInQueue_iff truthy_string_def push_entry_def Let_def)

text \<open>
  Claim C4 as stated fails for a name that is registered but only queued: with \<open>X\<close>
  queued and not installed, registering \<open>X\<close> again returns normally and the queue then
  holds \<open>X\<close> twice.
\<close>

theorem vk_extend_queued_duplicate_counterexample:
  "map entry_name (pluginsQueue queued_X) = [''X''] \<and>
   fst (vk_extend queued_X plugin_X Map.empty True) = Inr None \<and>
   map entry_name (pluginsQueue (snd (vk_extend queued_X plugin_X Map.empty True)))
     = [''X'', ''X'']"
  by (simp add: queued_X_eq vk_extend_def plugin_X_def hasPlugin_iff
      pluginInQueue_iff truthy_string_def push_entry_def Let_def)

text \<open>
  Claim C4, amended. In every registry, registering a plugin whose name is empty, is the
  reserved \<open>defaultPlugin\<close>, or is in the installed list \<open>plugins\<close> raises a registration
  error, and the whole registry (installed list, queue, queued names, pending enables)
  is as it was before the call.
\<close>

theorem vk_extend_rejects_bad_name:
  "name p = [] \<or> name p = ''defaultPlugin'' \<or> name p \<in> set (plugins s) \<Longrightarrow>
   vk_extend s p opts q =
     (Inl (if name p = [] \<or> name p = ''defaultPlugin'' then MustHaveUniqueName
           else AlreadyInstalled), s)"
  by (auto simp: vk_extend_def hasPlugin_iff)

theorem vk_extend_rejects_bad_name_witness:
  "name plugin_X \<in> set (plugins installed_X)
   \<and> vk_extend installed_X plugin_X Map.empty True = (Inl AlreadyInstalled, installed_X)"
  using vk_extend_rejects_bad_name [of plugin_X installed_X Map.empty True]
  by (simp add: installed_X_eq plugin_X_def)

lemma queued_X_then_Y_eq:
  "queued_X_then_Y =
     \<lparr>pluginsQueue = [\<lparr>plugin = plugin_X, options = Map.empty, entry_name = ''X''\<rparr>,
                      \<lparr>plugin = plugin_after_X, options = Map.empty, entry_name = ''Y''\<rparr>],
      pluginsQueueNames = [Name ''X'', Name ''Y''], plugins = [], queuePromises = []\<rparr>"
  by (simp add: queued_X_then_Y_def queued_X_eq vk_extend_def plugin_after_X_def hasPlugin_iff
      indexOf_def pluginInQueue_iff truthy_string_def push_entry_def Let_def)

text \<open>
  Claim C7. Let a plugin declare the requirements \<open>[X]\<close>. In every registry where \<open>X\<close> is
  neither installed nor among the queued names, its registration raises a registration
  error and leaves the registry unchanged; the error is the missing requirement unless
  the plugin's own name is already refused. In every registry where \<open>X\<close> is among the
  queued names (installed or not, first in the queue or not) and the plugin's own name is
  acceptable, the registration returns normally. A deferred registration of a plugin
  named \<open>X\<close> that returns leads to such a registry: \<open>X\<close> is among the queued names and the
  installed list is as before, so \<open>X\<close> is queued and not yet enabled.
\<close>

theorem vk_extend_requirements:
  assumes "requirements p = Some [X]"
  shows "(X \<notin> set (plugins s) \<and> Name X \<notin> set (pluginsQueueNames s) \<longrightarrow>
           vk_extend s p opts q =
             (Inl (if name p = [] \<or> name p = ''defaultPlugin'' then MustHaveUniqueName
                   else if name p \<in> set (plugins s) then AlreadyInstalled
                   else RequiresPlugin X), s))
       \<and> (Name X \<in> set (pluginsQueueNames s)
            \<and> name p \<noteq> [] \<and> name p \<noteq> ''defaultPlugin'' \<and> name p \<notin> set (plugins s) \<longrightarrow>
           (\<exists>r. fst (vk_extend s p opts q) = Inr r))
       \<and> (name pX = X \<and> fst (vk_extend s pX optsX True) = Inr rX \<longrightarrow>
           Name X \<in> set (pluginsQueueNames (snd (vk_extend s pX optsX True)))
           \<and> plugins (snd (vk_extend s pX optsX True)) = plugins s)"
proof (intro conjI impI)
  assume "X \<notin> set (plugins s) \<and> Name X \<notin> set (pluginsQueueNames s)"
  then show "vk_extend s p opts q =
             (Inl (if name p = [] \<or> name p = ''defaultPlugin'' then MustHaveUniqueName
                   else if name p \<in> set (plugins s) then AlreadyInstalled
                   else RequiresPlugin X), s)"
    using assms vk_extend_missing_requirement [of p X s opts q] by simp
next
  assume h: "Name X \<in> set (pluginsQueueNames s)
            \<and> name p \<noteq> [] \<and> name p \<noteq> ''defaultPlugin'' \<and> name p \<notin> set (plugins s)"
  then have "check_requirements s (case requirements p of None \<Rightarrow> [] | Some rs \<Rightarrow> rs) = None"
    using assms by (simp add: indexOf_absent)
  then show "\<exists>r. fst (vk_extend s p opts q) = Inr r"
    using h by (intro vk_extend_succeeds) auto
next
  assume h: "name pX = X \<and> fst (vk_extend s pX optsX True) = Inr rX"
  then show "Name X \<in> set (pluginsQueueNames (snd (vk_extend s pX optsX True)))"
    using vk_extend_deferred_success(1) [of s pX optsX rX] by auto
next
  assume h: "name pX = X \<and> fst (vk_extend s pX optsX True) = Inr rX"
  then show "plugins (snd (vk_extend s pX optsX True)) = plugins s"
    using vk_extend_deferred_success(2) [of s pX optsX rX] by auto
qed

theorem vk_extend_requirements_witness:
  "requirements plugin_needs_X = Some [''X'']
   \<and> ''X'' \<notin> set (plugins empty_registry)
   \<and> Name ''X'' \<notin> set (pluginsQueueNames empty_registry)
   \<and> vk_extend empty_registry plugin_needs_X Map.empty True
       = (Inl (RequiresPlugin ''X''), empty_registry)
   \<and> name plugin_X = ''X''
   \<and> fst (vk_extend empty_registry plugin_X Map.empty True) = Inr None
   \<and> Name ''X'' \<in> set (pluginsQueueNames queued_X)
   \<and> plugins queued_X = plugins empty_registry
   \<and> Name ''X'' \<in> set (pluginsQueueNames queued_X_then_Y)
   \<and> ''X'' \<notin> set (plugins queued_X_then_Y)
   \<and> name plugin_needs_X \<noteq> [] \<and> name plugin_needs_X \<noteq> ''defaultPlugin''
   \<and> name plugin_needs_X \<notin> set (plugins queued_X_then_Y)
   \<and> (\<exists>r. fst (vk_extend queued_X_then_Y plugin_needs_X Map.empty True) = Inr r)"
proof -
  have a: "requirements plugin_needs_X = Some [''X'']" by (simp add: plugin_needs_X_def)
  have b: "''X'' \<notin> set (plugins empty_registry) \<and> Name ''X'' \<notin> set (pluginsQueueNames empty_registry)"
    by (simp add: empty_registry_def)
  have c: "name plugin_X = ''X'' \<and> fst (vk_extend empty_registry plugin_X Map.empty True) = Inr None"
    by (simp add: vk_extend_def plugin_X_def empty_registry_def hasPlugin_iff
      pluginInQueue_iff truthy_string_def push_entry_def Let_def)
  have d: "Name ''X'' \<in> set (pluginsQueueNames queued_X_then_Y)
     \<and> ''X'' \<notin> set (plugins queued_X_then_Y)
     \<and> name plugin_needs_X \<noteq> [] \<and> name plugin_needs_X \<noteq> ''defaultPlugin''
     \<and> name plugin_needs_X \<notin> set (plugins queued_X_then_Y)"
    by (simp add: queued_X_then_Y_eq plugin_needs_X_def)
  have f: "plugins empty_registry = []" by (simp add: empty_registry_def)
  from vk_extend_requirements [OF a, of empty_registry Map.empty True plugin_X Map.empty None]
    vk_extend_requirements [OF a, of queued_X_then_Y Map.empty True plugin_X Map.empty None]
  show ?thesis using a b c d f by (simp add: queued_X_def plugin_needs_X_def)
qed

text \<open>
  Claim C10. A call of \<open>setup\<close> leaves the queue as it was. A second call therefore hands
  \<^verbatim>\<open>Promise.all\<close> the same array as the first. Its leading part is one \<open>onEnable\<close> call
  per queue entry, in queue order: the call is on the plugin of that entry's name, with
  the entry's options overridden by the global options under that name. The installed
  list ends with the queued names twice.
\<close>

theorem vk_setup_keeps_queue:
  "pluginsQueue (fst (vk_setup g s)) = pluginsQueue s \<and>
   snd (vk_setup g (fst (vk_setup g s))) = snd (vk_setup g s) \<and>
   take (length (pluginsQueue s)) (snd (vk_setup g (fst (vk_setup g s))))
     = map (enable_entry g) (pluginsQueue s) \<and>
   take (length (pluginsQueue s)) (snd (vk_setup g (fst (vk_setup g s))))
     = map (\<lambda>e. OnEnable (name (plugin e))
                  (options e ++ (case g (name (plugin e)) of None \<Rightarrow> Map.empty | Some ov \<Rightarrow> ov)))
         (pluginsQueue s) \<and>
   map (\<lambda>p. case p of OnEnable n ov \<Rightarrow> n)
       (take (length (pluginsQueue s)) (snd (vk_setup g (fst (vk_setup g s)))))
     = map (\<lambda>e. name (plugin e)) (pluginsQueue s) \<and>
   plugins (fst (vk_setup g (fst (vk_setup g s))))
     = plugins s @ map (\<lambda>e. name (plugin e)) (pluginsQueue s)
         @ map (\<lambda>e. name (plugin e)) (pluginsQueue s)"
  by (simp add: vk_setup_def Let_def enable_entry_def comp_def)

section \<open>Properties of the response classification\<close>

lemma field_object: "field res k = JObj e \<Longrightarrow> \<not> is_string res \<and> \<not> nullish res"
  by (cases res) auto

text \<open>
  Claim C2, evaluated on the code. For the body
  \<^verbatim>\<open>{"error": "need_captcha", "captcha_sid": "1", "captcha_img": "url"}\<close> and the default
  options, \<open>checkOnErrors\<close> throws the captcha exception, and the \<open>captchaSid\<close> and
  \<open>captchaImg\<close> it passes are \<^verbatim>\<open>undefined\<close>: lines 134-135 read them from
  \<^verbatim>\<open>res.error\<close>, here the string \<^verbatim>\<open>"need_captcha"\<close>, not from the body.
\<close>

theorem checkOnErrors_top_level_captcha:
  "checkOnErrors default_errors
     (JObj [(''error'', JStr ''need_captcha''), (''captcha_sid'', JStr ''1''),
            (''captcha_img'', JStr ''url'')])
   = Inl (CaptchaException JUndefined \<lparr>code = JUndefined, errorType = JUndefined\<rparr>
            JUndefined JUndefined)"
  by (simp add: checkOnErrors_def extract_error_def default_errors_def or_else_def)

text \<open>
  Claim C5 as stated fails when the top-level \<open>error_description\<close> is present and falsy:
  for \<^verbatim>\<open>{"error": {"message": "m"}, "error_description": ""}\<close> the message of the
  exception is the nested \<^verbatim>\<open>"m"\<close>, not the top-level description.
\<close>

theorem checkOnErrors_empty_description_counterexample:
  "checkOnErrors default_errors
     (JObj [(''error'', JObj [(''message'', JStr ''m'')]), (''error_description'', JStr [])])
   = Inl (APIException (JStr ''m'') \<lparr>code = JUndefined, errorType = JStr []\<rparr>)
   \<and> field (JObj [(''error'', JObj [(''message'', JStr ''m'')]), (''error_description'', JStr [])])
        ''error_description'' = JStr []"
  by (simp add: checkOnErrors_def extract_error_def default_errors_def or_else_def)

text \<open>
  Claim C5, amended. For every body whose \<open>error\<close> is a nested object, \<open>checkOnErrors\<close>
  throws, whatever the options are. If the top-level \<open>error_description\<close> is truthy, the
  message of the exception is that description, with or without a nested \<open>message\<close> or
  \<open>error_msg\<close>. If it is falsy (absent, empty, \<^verbatim>\<open>null\<close>, 0 or \<^verbatim>\<open>false\<close>), it does not
  override: the message is the nested \<open>message\<close> if that is truthy, else the nested
  \<open>error_msg\<close> if that is truthy, else \<^verbatim>\<open>undefined\<close>.
\<close>

theorem checkOnErrors_description_wins:
  assumes "field res ''error'' = JObj e"
  shows "\<exists>f. checkOnErrors opts res = Inl f \<and> message f =
     (if truthy (field res ''error_description'') then field res ''error_description''
      else if truthy (field (JObj e) ''message'') then field (JObj e) ''message''
      else if truthy (field (JObj e) ''error_msg'') then field (JObj e) ''error_msg''
      else JUndefined)"
proof -
  have ok: "\<not> is_string res" "\<not> nullish res"
    using field_object [OF assms] by auto
  have ex: "fst (snd (extract_error res)) =
     (if truthy (field res ''error_description'') then field res ''error_description''
      else if truthy (field (JObj e) ''message'') then field (JObj e) ''message''
      else if truthy (field (JObj e) ''error_msg'') then field (JObj e) ''error_msg''
      else JUndefined)"
    using assms by (simp add: extract_error_def)
  obtain c m ty where split: "extract_error res = (c, m, ty)"
    by (cases "extract_error res") auto
  with ex have m: "m =
     (if truthy (field res ''error_description'') then field res ''error_description''
      else if truthy (field (JObj e) ''message'') then field (JObj e) ''message''
      else if truthy (field (JObj e) ''error_msg'') then field (JObj e) ''error_msg''
      else JUndefined)" by simp
  have "\<exists>f. checkOnErrors opts res = Inl f \<and> message f = m"
    using ok assms by (auto simp: checkOnErrors_def split Let_def)
  then show ?thesis using m by simp
qed

theorem checkOnErrors_description_wins_witness:
  "field (JObj [(''error'', JObj [(''error_msg'', JStr ''nested'')]),
                (''error_description'', JStr ''top'')]) ''error''
     = JObj [(''error_msg'', JStr ''nested'')]
   \<and> (\<exists>f. checkOnErrors default_errors
             (JObj [(''error'', JObj [(''error_msg'', JStr ''nested'')]),
                    (''error_description'', JStr ''top'')]) = Inl f
          \<and> message f = JStr ''top'')
   \<and> field (JObj [(''error'', JObj [(''error_msg'', JStr ''nested'')]),
                (''error_description'', JNull)]) ''error''
     = JObj [(''error_msg'', JStr ''nested'')]
   \<and> (\<exists>f. checkOnErrors default_errors
             (JObj [(''error'', JObj [(''error_msg'', JStr ''nested'')]),
                    (''error_description'', JNull)]) = Inl f
          \<and> message f = JStr ''nested'')"
  using checkOnErrors_description_wins [of
     "JObj [(''error'', JObj [(''error_msg'', JStr ''nested'')]),
            (''error_description'', JStr ''top'')]"
     "[(''error_msg'', JStr ''nested'')]" default_errors]
   checkOnErrors_description_wins [of
     "JObj [(''error'', JObj [(''error_msg'', JStr ''nested'')]),
            (''error_description'', JNull)]"
     "[(''error_msg'', JStr ''nested'')]" default_errors]
  by simp

section \<open>Properties of the exception handlers\<close>

lemma calls_resolve [simp]: "calls (resolve v st) = calls st"
  by (simp add: resolve_def split: settlement.splits)

lemma calls_reject [simp]: "calls (reject e st) = calls st"
  by (simp add: reject_def split: settlement.splits)

text \<open>Both loops only add to the log of calls.\<close>

lemma run_handlers_keeps_calls:
  "set (calls st) \<subseteq> set (calls (run_handlers e t c hs i st))"
proof (induction hs arbitrary: i st)
  case Nil
  then show ?case by simp
next
  case (Cons g hs)
  show ?case
  proof (cases "g e t = VObj e")
    case True
    have "set (calls st) \<subseteq> set (calls (st\<lparr>calls := calls st @ [(c, i)]\<rparr>))"
      by auto
    also have "\<dots> \<subseteq> set (calls (run_handlers e t c hs (i + 1) (st\<lparr>calls := calls st @ [(c, i)]\<rparr>)))"
      by (rule Cons.IH)
    finally show ?thesis using True by (simp add: Let_def)
  next
    case False
    then show ?thesis by (auto simp: Let_def)
  qed
qed

lemma run_types_keeps_calls:
  "set (calls st) \<subseteq> set (calls (run_types s e t cs st))"
proof (induction cs arbitrary: st)
  case Nil
  then show ?case by simp
next
  case (Cons c cs)
  show ?case
  proof (cases "isPrototypeOf c t \<or> c = t")
    case True
    have "set (calls st) \<subseteq> set (calls (run_handlers e t c (exceptionHandlers s c) 0 st))"
      by (rule run_handlers_keeps_calls)
    also have "\<dots> \<subseteq> set (calls (run_types s e t cs
                  (run_handlers e t c (exceptionHandlers s c) 0 st)))"
      by (rule Cons.IH)
    finally show ?thesis using True by simp
  next
    case False
    then show ?thesis using Cons.IH by simp
  qed
qed

text \<open>The inner loop reaches a handler when every handler before it in the list returns
  the error instance.\<close>

lemma run_handlers_reaches:
  "list_all (\<lambda>g. g e t = VObj e) pre \<Longrightarrow>
   (c, i + length pre) \<in> set (calls (run_handlers e t c (pre @ h # post) i st))"
proof (induction pre arbitrary: i st)
  case Nil
  then show ?case
    using run_handlers_keeps_calls [of "st\<lparr>calls := calls st @ [(c, i)]\<rparr>" e t c post "i + 1"]
    by (auto simp: Let_def)
next
  case (Cons g pre)
  from Cons.prems have g: "g e t = VObj e" and pre: "list_all (\<lambda>g. g e t = VObj e) pre"
    by auto
  from Cons.IH [OF pre, of "i + 1" "st\<lparr>calls := calls st @ [(c, i)]\<rparr>"] g
  show ?case by (simp add: Let_def)
qed

lemma run_types_reaches:
  assumes "c \<in> set cs" and "isPrototypeOf c t \<or> c = t"
    and "exceptionHandlers s c = pre @ h # post"
    and "list_all (\<lambda>g. g e t = VObj e) pre"
  shows "(c, length pre) \<in> set (calls (run_types s e t cs st))"
  using assms(1)
proof (induction cs arbitrary: st)
  case Nil
  then show ?case by simp
next
  case (Cons d cs)
  show ?case
  proof (cases "d = c")
    case True
    have "(c, 0 + length pre) \<in> set (calls (run_handlers e t c (pre @ h # post) 0 st))"
      using assms(4) by (rule run_handlers_reaches)
    then show ?thesis
      using True assms(2,3) run_types_keeps_calls by (simp, blast)
  next
    case False
    then have "c \<in> set cs" using Cons.prems by simp
    then show ?thesis using Cons.IH by simp
  qed
qed

lemma processHandlers_reaches:
  assumes "c \<in> set (handlersExceptions s)" and "isPrototypeOf c t \<or> c = t"
    and "exceptionHandlers s c = pre @ h # post"
    and "list_all (\<lambda>g. g e t = VObj e) pre"
  shows "(c, length pre) \<in> set (calls (processHandlers s t e))"
  using run_types_reaches [OF assms] by (simp add: processHandlers_def Let_def)

lemma handleException_handlers:
  "exceptionHandlers (fst (handleException s c h)) c = exceptionHandlers s c @ [h]"
  "c \<in> set (handlersExceptions (fst (handleException s c h)))"
  "snd (handleException s c h) = (c, length (exceptionHandlers s c))"
  by (simp_all add: handleException_def exceptionHandlers_def set_add_def Let_def)

lemma handleExceptionFirstly_handlers:
  "exceptionHandlers (fst (handleExceptionFirstly s c h)) c = h # exceptionHandlers s c"
  "c \<in> set (handlersExceptions (fst (handleExceptionFirstly s c h)))"
  "snd (handleExceptionFirstly s c h) = (c, 0)"
  by (simp_all add: handleExceptionFirstly_def exceptionHandlers_def set_add_def Let_def)

text \<open>
  Claim C3, evaluated on the code. Handlers are registered for a base class and then for
  the class derived from it, and an error whose type is the derived class is processed.
  First case: the base handler returns the truthy string \<^verbatim>\<open>"recovered"\<close>, which is not
  the error; the promise resolves with it, and the handler of the derived class is
  called all the same. Second case: the base handler returns \<^verbatim>\<open>undefined\<close>, the handler
  of the derived class is called and returns \<^verbatim>\<open>"late"\<close>, and the promise resolves with
  \<^verbatim>\<open>"late"\<close>. The \<open>break\<close> of line 283 leaves the loop over one type's handlers only.
\<close>

theorem processHandlers_later_type_still_runs:
  "processHandlers (two_types (\<lambda>e t. VStr ''recovered'') (\<lambda>e t. VObj e)) example_Derived 7
     = \<lparr>handled = True, settled = Resolved (VStr ''recovered''),
        calls = [(example_Base, 0), (example_Derived, 0)]\<rparr>
   \<and> processHandlers (two_types (\<lambda>e t. VUndefined) (\<lambda>e t. VStr ''late'')) example_Derived 7
     = \<lparr>handled = True, settled = Resolved (VStr ''late''),
        calls = [(example_Base, 0), (example_Derived, 0)]\<rparr>"
  by (simp add: processHandlers_def two_types_def handleException_def exceptionHandlers_def
      empty_handlers_def set_add_def example_Base_def example_Derived_def Let_def resolve_def)

text \<open>
  What one run leaves in \<open>handled\<close> and \<open>settled\<close>. Handlers that return the error
  instance change neither. Once \<open>handled\<close> is set it stays set, and a resolved promise
  stays resolved with the same value.
\<close>

lemma handled_resolve [simp]: "handled (resolve v st) = handled st"
  by (simp add: resolve_def split: settlement.splits)

lemma settled_resolve:
  "settled (resolve v st) = (if settled st = Pending then Resolved v else settled st)"
  by (simp add: resolve_def split: settlement.splits)

lemma run_handlers_pass:
  "list_all (\<lambda>g. g e t = VObj e) hs \<Longrightarrow>
   handled (run_handlers e t c hs i st) = handled st
   \<and> settled (run_handlers e t c hs i st) = settled st"
  by (induction hs arbitrary: i st) (simp_all add: Let_def)

text \<open>If every handler of every matching type returns the error instance, the promise is
  rejected with that error and \<open>handled\<close> stays unset.\<close>

lemma run_types_all_pass:
  "list_all (\<lambda>c. list_all (\<lambda>g. g e t = VObj e) (exceptionHandlers s c))
     (filter (\<lambda>c. isPrototypeOf c t \<or> c = t) cs) \<Longrightarrow>
   handled (run_types s e t cs st) = handled st
   \<and> settled (run_types s e t cs st) = settled st"
proof (induction cs arbitrary: st)
  case Nil
  then show ?case by simp
next
  case (Cons c cs)
  show ?case
  proof (cases "isPrototypeOf c t \<or> c = t")
    case True
    with Cons.prems have pass: "list_all (\<lambda>g. g e t = VObj e) (exceptionHandlers s c)"
      and rest: "list_all (\<lambda>c. list_all (\<lambda>g. g e t = VObj e) (exceptionHandlers s c))
                   (filter (\<lambda>c. isPrototypeOf c t \<or> c = t) cs)"
      by auto
    from Cons.IH [OF rest, of "run_handlers e t c (exceptionHandlers s c) 0 st"]
      run_handlers_pass [OF pass, of c 0 st] True
    show ?thesis by simp
  next
    case False
    with Cons.prems Cons.IH [of st] show ?thesis by simp
  qed
qed

lemma processHandlers_all_pass_rejects:
  assumes "list_all (\<lambda>c. list_all (\<lambda>g. g e t = VObj e) (exceptionHandlers s c))
     (filter (\<lambda>c. isPrototypeOf c t \<or> c = t) (handlersExceptions s))"
  shows "settled (processHandlers s t e) = Rejected e \<and> \<not> handled (processHandlers s t e)"
  using run_types_all_pass [OF assms, of "\<lparr>handled = False, settled = Pending, calls = []\<rparr>"]
  by (simp add: processHandlers_def Let_def reject_def)

text \<open>One handler \<open>h\<close> among handlers that all return the error instance decides the
  outcome alone.\<close>

lemma run_handlers_one_alters:
  "list_all (\<lambda>g. g e t = VObj e) pre \<Longrightarrow> list_all (\<lambda>g. g e t = VObj e) post \<Longrightarrow>
   handled (run_handlers e t c (pre @ h # post) i st) = (handled st \<or> h e t \<noteq> VObj e)
   \<and> settled (run_handlers e t c (pre @ h # post) i st) =
       (if h e t \<noteq> VObj e \<and> truthy_value (h e t) \<and> settled st = Pending
        then Resolved (h e t) else settled st)"
proof (induction pre arbitrary: i st)
  case Nil
  show ?case
  proof (cases "h e t = VObj e")
    case True
    then show ?thesis
      using run_handlers_pass [OF Nil.prems(2), of c "i + 1" "st\<lparr>calls := calls st @ [(c, i)]\<rparr>"]
      by (simp add: Let_def)
  next
    case False
    then show ?thesis by (simp add: Let_def settled_resolve)
  qed
next
  case (Cons g pre)
  from Cons.prems have g: "g e t = VObj e" and pre: "list_all (\<lambda>g. g e t = VObj e) pre"
    by auto
  from Cons.IH [OF pre Cons.prems(2), of "i + 1" "st\<lparr>calls := calls st @ [(c, i)]\<rparr>"] g
  show ?case by (simp add: Let_def)
qed

lemma run_types_one_alters:
  assumes others: "list_all (\<lambda>c. c = B \<or> list_all (\<lambda>g. g e t = VObj e) (exceptionHandlers s c)) cs"
    and B: "exceptionHandlers s B = pre @ h # post"
    and pre: "list_all (\<lambda>g. g e t = VObj e) pre"
    and post: "list_all (\<lambda>g. g e t = VObj e) post"
  shows "handled (run_types s e t cs st) =
           (handled st \<or> (B \<in> set cs \<and> (isPrototypeOf B t \<or> B = t) \<and> h e t \<noteq> VObj e))
       \<and> settled (run_types s e t cs st) =
           (if B \<in> set cs \<and> (isPrototypeOf B t \<or> B = t) \<and> h e t \<noteq> VObj e
               \<and> truthy_value (h e t) \<and> settled st = Pending
            then Resolved (h e t) else settled st)"
  using others
proof (induction cs arbitrary: st)
  case Nil
  then show ?case by simp
next
  case (Cons c cs)
  from Cons.prems have rest: "list_all (\<lambda>c. c = B \<or> list_all (\<lambda>g. g e t = VObj e) (exceptionHandlers s c)) cs"
    and this_c: "c = B \<or> list_all (\<lambda>g. g e t = VObj e) (exceptionHandlers s c)"
    by auto
  note IH = Cons.IH [OF rest]
  show ?case
  proof (cases "isPrototypeOf c t \<or> c = t")
    case False
    then show ?thesis using IH [of st] by auto
  next
    case match: True
    show ?thesis
    proof (cases "c = B")
      case True
      let ?st1 = "run_handlers e t B (pre @ h # post) 0 st"
      have st1: "handled ?st1 = (handled st \<or> h e t \<noteq> VObj e)"
        "settled ?st1 = (if h e t \<noteq> VObj e \<and> truthy_value (h e t) \<and> settled st = Pending
                         then Resolved (h e t) else settled st)"
        using run_handlers_one_alters [OF pre post, of B h 0 st] by auto
      have step: "run_types s e t (c # cs) st = run_types s e t cs ?st1"
        using match True B by simp
      show ?thesis
        unfolding step using IH [of ?st1] match True st1 by auto
    next
      case False
      let ?st1 = "run_handlers e t c (exceptionHandlers s c) 0 st"
      have pass: "list_all (\<lambda>g. g e t = VObj e) (exceptionHandlers s c)"
        using this_c False by simp
      have st1: "handled ?st1 = handled st" "settled ?st1 = settled st"
        using run_handlers_pass [OF pass, of c 0 st] by auto
      have step: "run_types s e t (c # cs) st = run_types s e t cs ?st1"
        using match by simp
      show ?thesis
        unfolding step using IH [of ?st1] False st1 by auto
    qed
  qed
qed

lemma processHandlers_one_alters:
  assumes "list_all (\<lambda>c. c = B \<or> list_all (\<lambda>g. g e t = VObj e) (exceptionHandlers s c))
             (handlersExceptions s)"
    and "exceptionHandlers s B = pre @ h # post"
    and "list_all (\<lambda>g. g e t = VObj e) pre"
    and "list_all (\<lambda>g. g e t = VObj e) post"
    and "B \<in> set (handlersExceptions s)" and "isPrototypeOf B t \<or> B = t"
  shows "settled (processHandlers s t e) =
           (if h e t = VObj e then Rejected e
            else if truthy_value (h e t) then Resolved (h e t) else Pending)"
proof -
  let ?st0 = "\<lparr>handled = False, settled = Pending, calls = []\<rparr>"
  from run_types_one_alters [OF assms(1-4), of ?st0] assms(5,6)
  show ?thesis
    by (auto simp: processHandlers_def Let_def reject_def)
qed

text \<open>A handler that is reached and returns something other than the error instance sets
  \<open>handled\<close>, and resolves the promise if what it returns is truthy and the promise is
  still pending.\<close>

lemma run_handlers_handled_mono:
  "handled st \<Longrightarrow> handled (run_handlers e t c hs i st)"
  by (induction hs arbitrary: i st) (simp_all add: Let_def)

lemma run_types_handled_mono:
  "handled st \<Longrightarrow> handled (run_types s e t cs st)"
  by (induction cs arbitrary: st) (simp_all add: run_handlers_handled_mono)

lemma run_handlers_resolved_stays:
  "settled st = Resolved v \<Longrightarrow> settled (run_handlers e t c hs i st) = Resolved v"
  by (induction hs arbitrary: i st) (simp_all add: Let_def settled_resolve)

lemma run_types_resolved_stays:
  "settled st = Resolved v \<Longrightarrow> settled (run_types s e t cs st) = Resolved v"
  by (induction cs arbitrary: st) (simp_all add: run_handlers_resolved_stays)

lemma run_handlers_not_rejected:
  "settled st \<noteq> Rejected r \<Longrightarrow> settled (run_handlers e t c hs i st) \<noteq> Rejected r"
  by (induction hs arbitrary: i st) (simp_all add: Let_def settled_resolve)

lemma run_types_not_rejected:
  "settled st \<noteq> Rejected r \<Longrightarrow> settled (run_types s e t cs st) \<noteq> Rejected r"
  by (induction cs arbitrary: st) (simp_all add: run_handlers_not_rejected)

lemma run_handlers_reaches_outcome:
  assumes "list_all (\<lambda>g. g e t = VObj e) pre" and "h e t \<noteq> VObj e"
  shows "handled (run_handlers e t c (pre @ h # post) i st)
       \<and> (truthy_value (h e t) \<and> (\<forall>r. settled st \<noteq> Rejected r)
            \<longrightarrow> (\<exists>v. settled (run_handlers e t c (pre @ h # post) i st) = Resolved v))"
  using assms(1)
proof (induction pre arbitrary: i st)
  case Nil
  show ?case using assms(2)
    by (cases "settled st") (auto simp: Let_def settled_resolve)
next
  case (Cons g pre)
  from Cons.prems have g: "g e t = VObj e" and pre: "list_all (\<lambda>g. g e t = VObj e) pre"
    by auto
  from Cons.IH [OF pre, of "i + 1" "st\<lparr>calls := calls st @ [(c, i)]\<rparr>"] g
  show ?case by (simp add: Let_def)
qed

lemma run_types_reaches_outcome:
  assumes "c \<in> set cs" and "isPrototypeOf c t \<or> c = t"
    and "exceptionHandlers s c = pre @ h # post"
    and "list_all (\<lambda>g. g e t = VObj e) pre" and "h e t \<noteq> VObj e"
  shows "handled (run_types s e t cs st)
       \<and> (truthy_value (h e t) \<and> (\<forall>r. settled st \<noteq> Rejected r)
            \<longrightarrow> (\<exists>v. settled (run_types s e t cs st) = Resolved v))"
  using assms(1)
proof (induction cs arbitrary: st)
  case Nil
  then show ?case by simp
next
  case (Cons d cs)
  show ?case
  proof (cases "d = c")
    case True
    let ?st1 = "run_handlers e t c (pre @ h # post) 0 st"
    have step: "run_types s e t (d # cs) st = run_types s e t cs ?st1"
      using True assms(2,3) by simp
    have st1: "handled ?st1"
      "truthy_value (h e t) \<and> (\<forall>r. settled st \<noteq> Rejected r) \<longrightarrow> (\<exists>v. settled ?st1 = Resolved v)"
      using run_handlers_reaches_outcome [where e = e and t = t and pre = pre and h = h
          and c = c and post = post and i = 0 and st = st] assms(4,5) by auto
    show ?thesis
      unfolding step using st1 run_types_handled_mono [of ?st1 s e t cs]
        run_types_resolved_stays [of ?st1 _ s e t cs] by auto
  next
    case False
    then have mem: "c \<in> set cs" using Cons.prems by simp
    show ?thesis
    proof (cases "isPrototypeOf d t \<or> d = t")
      case True
      let ?st1 = "run_handlers e t d (exceptionHandlers s d) 0 st"
      have step: "run_types s e t (d # cs) st = run_types s e t cs ?st1"
        using True by simp
      have keep: "(\<forall>r. settled st \<noteq> Rejected r) \<longrightarrow> (\<forall>r. settled ?st1 \<noteq> Rejected r)"
        using run_handlers_not_rejected by blast
      show ?thesis
        unfolding step using Cons.IH [OF mem, of ?st1] keep by blast
    next
      case False
      then show ?thesis using Cons.IH [OF mem, of st] by simp
    qed
  qed
qed

lemma processHandlers_reaches_outcome:
  assumes "c \<in> set (handlersExceptions s)" and "isPrototypeOf c t \<or> c = t"
    and "exceptionHandlers s c = pre @ h # post"
    and "list_all (\<lambda>g. g e t = VObj e) pre" and "h e t \<noteq> VObj e"
  shows "handled (processHandlers s t e)"
    and "truthy_value (h e t) \<Longrightarrow> \<exists>v. settled (processHandlers s t e) = Resolved v"
proof -
  let ?st0 = "\<lparr>handled = False, settled = Pending, calls = []\<rparr>"
  have out: "handled (run_types s e t (handlersExceptions s) ?st0)"
    "truthy_value (h e t) \<longrightarrow> (\<exists>v. settled (run_types s e t (handlersExceptions s) ?st0) = Resolved v)"
    using run_types_reaches_outcome [where c = c and cs = "handlersExceptions s" and t = t
        and s = s and pre = pre and h = h and post = post and e = e and st = ?st0] assms
    by auto
  show "handled (processHandlers s t e)"
    using out(1) by (simp add: processHandlers_def Let_def)
  show "\<exists>v. settled (processHandlers s t e) = Resolved v" if "truthy_value (h e t)"
    using out that by (simp add: processHandlers_def Let_def)
qed

lemma handleException_others:
  "c \<noteq> B \<Longrightarrow> exceptionHandlers (fst (handleException s B h)) c = exceptionHandlers s c"
  "c \<noteq> B \<Longrightarrow> exceptionHandlers (fst (handleExceptionFirstly s B h)) c = exceptionHandlers s c"
  "set (handlersExceptions (fst (handleException s B h))) = insert B (set (handlersExceptions s))"
  "set (handlersExceptions (fst (handleExceptionFirstly s B h))) = insert B (set (handlersExceptions s))"
  by (auto simp: handleException_def handleExceptionFirstly_def exceptionHandlers_def
      set_add_def Let_def)

lemma all_pass_after:
  assumes "list_all (\<lambda>c. list_all (\<lambda>g. g e t = VObj e) (exceptionHandlers s c)) (handlersExceptions s)"
  shows "list_all (\<lambda>c. c = B \<or> list_all (\<lambda>g. g e t = VObj e)
            (exceptionHandlers (fst (handleException s B h)) c))
          (handlersExceptions (fst (handleException s B h)))"
    and "list_all (\<lambda>c. c = B \<or> list_all (\<lambda>g. g e t = VObj e)
            (exceptionHandlers (fst (handleExceptionFirstly s B h)) c))
          (handlersExceptions (fst (handleExceptionFirstly s B h)))"
  using assms
  by (auto simp: list_all_iff handleException_others)

text \<open>
  Claim C6 as stated fails when the base class already has a handler that handles the
  error: a handler registered after it with \<open>handleException\<close> gets position 1, and
  processing an error of the derived class calls position 0 only, whose value resolves
  the promise.
\<close>

theorem processHandlers_earlier_handler_counterexample:
  "snd (handleException base_with_earlier example_Base (constant_handler (VStr ''h'')))
     = (example_Base, 1)
   \<and> processHandlers
       (fst (handleException base_with_earlier example_Base (constant_handler (VStr ''h''))))
       example_Derived 7
     = \<lparr>handled = True, settled = Resolved (VStr ''x''), calls = [(example_Base, 0)]\<rparr>"
  by (simp add: processHandlers_def base_with_earlier_def handleException_def
      exceptionHandlers_def empty_handlers_def set_add_def example_Base_def example_Derived_def
      constant_handler_def Let_def resolve_def)

text \<open>
  Claim C6, amended. Let \<open>Base\<close> be on the prototype chain of \<open>Derived\<close> (\<open>Derived\<close> extends
  it, directly or through other classes) or be \<open>Derived\<close> itself, and let a handler \<open>h\<close>
  be registered for \<open>Base\<close>. With \<open>handleExceptionFirstly\<close>, or with \<open>handleException\<close> when
  every handler registered for \<open>Base\<close> before it returns the error instance, processing
  an error whose type is \<open>Derived\<close> calls the handler at the position the registration
  returned, which is \<open>h\<close>; if \<open>h\<close> returns something other than the error instance the
  failure is marked handled, and if that value is truthy the promise is resolved. If
  moreover every handler registered before returns the error instance, \<open>h\<close> decides the
  outcome: rejected with the error when \<open>h\<close> returns it, resolved with the value of \<open>h\<close>
  when that is truthy, pending otherwise.
\<close>

theorem processHandlers_invokes_base_handler:
  assumes "isPrototypeOf Base Derived \<or> Base = Derived"
  shows
    "snd (handleExceptionFirstly s Base h)
       \<in> set (calls (processHandlers (fst (handleExceptionFirstly s Base h)) Derived error))
     \<and> exceptionHandlers (fst (handleExceptionFirstly s Base h)) Base
         ! snd (snd (handleExceptionFirstly s Base h)) = h
     \<and> fst (snd (handleExceptionFirstly s Base h)) = Base
     \<and> (h error Derived \<noteq> VObj error \<longrightarrow>
          handled (processHandlers (fst (handleExceptionFirstly s Base h)) Derived error))
     \<and> (h error Derived \<noteq> VObj error \<and> truthy_value (h error Derived) \<longrightarrow>
          (\<exists>v. settled (processHandlers (fst (handleExceptionFirstly s Base h)) Derived error)
                 = Resolved v))
     \<and> (list_all (\<lambda>g. g error Derived = VObj error) (exceptionHandlers s Base) \<longrightarrow>
          snd (handleException s Base h)
            \<in> set (calls (processHandlers (fst (handleException s Base h)) Derived error))
          \<and> exceptionHandlers (fst (handleException s Base h)) Base
              ! snd (snd (handleException s Base h)) = h
          \<and> fst (snd (handleException s Base h)) = Base
          \<and> (h error Derived \<noteq> VObj error \<longrightarrow>
               handled (processHandlers (fst (handleException s Base h)) Derived error))
          \<and> (h error Derived \<noteq> VObj error \<and> truthy_value (h error Derived) \<longrightarrow>
               (\<exists>v. settled (processHandlers (fst (handleException s Base h)) Derived error)
                      = Resolved v)))
     \<and> (list_all (\<lambda>g. g error Derived = VObj error) (exceptionHandlers s Base)
          \<and> list_all (\<lambda>c. list_all (\<lambda>g. g error Derived = VObj error) (exceptionHandlers s c))
                (handlersExceptions s) \<longrightarrow>
          settled (processHandlers (fst (handleException s Base h)) Derived error)
            = (if h error Derived = VObj error then Rejected error
               else if truthy_value (h error Derived) then Resolved (h error Derived)
               else Pending)
          \<and> settled (processHandlers (fst (handleExceptionFirstly s Base h)) Derived error)
            = (if h error Derived = VObj error then Rejected error
               else if truthy_value (h error Derived) then Resolved (h error Derived)
               else Pending))"
proof -
  let ?s1 = "fst (handleException s Base h)"
  let ?s2 = "fst (handleExceptionFirstly s Base h)"
  let ?old = "exceptionHandlers s Base"
  let ?pass = "\<lambda>g. g error Derived = VObj error"
  have hs1: "exceptionHandlers ?s1 Base = ?old @ h # []"
    and hs2: "exceptionHandlers ?s2 Base = [] @ h # ?old"
    by (simp_all add: handleException_handlers handleExceptionFirstly_handlers)
  have in1: "Base \<in> set (handlersExceptions ?s1)" and in2: "Base \<in> set (handlersExceptions ?s2)"
    by (simp_all add: handleException_handlers handleExceptionFirstly_handlers)
  have nil: "list_all ?pass []" by simp
  have first_called: "(Base, length ([]::handler list)) \<in> set (calls (processHandlers ?s2 Derived error))"
    using processHandlers_reaches [where c = Base and s = ?s2 and t = Derived
        and pre = "[]" and h = h and post = ?old and e = error] assms in2 hs2 by simp
  have first_handled: "handled (processHandlers ?s2 Derived error)" if "h error Derived \<noteq> VObj error"
    using processHandlers_reaches_outcome(1) [where c = Base and s = ?s2 and t = Derived
        and pre = "[]" and h = h and post = ?old and e = error] assms in2 hs2 that by simp
  have first_resolved: "\<exists>v. settled (processHandlers ?s2 Derived error) = Resolved v"
    if "h error Derived \<noteq> VObj error" "truthy_value (h error Derived)"
    using processHandlers_reaches_outcome(2) [where c = Base and s = ?s2 and t = Derived
        and pre = "[]" and h = h and post = ?old and e = error] assms in2 hs2 that by simp
  have last_called: "(Base, length ?old) \<in> set (calls (processHandlers ?s1 Derived error))"
    if "list_all ?pass ?old"
    using processHandlers_reaches [where c = Base and s = ?s1 and t = Derived
        and pre = ?old and h = h and post = "[]" and e = error] assms in1 hs1 that by simp
  have last_handled: "handled (processHandlers ?s1 Derived error)"
    if "list_all ?pass ?old" "h error Derived \<noteq> VObj error"
    using processHandlers_reaches_outcome(1) [where c = Base and s = ?s1 and t = Derived
        and pre = ?old and h = h and post = "[]" and e = error] assms in1 hs1 that by simp
  have last_resolved: "\<exists>v. settled (processHandlers ?s1 Derived error) = Resolved v"
    if "list_all ?pass ?old" "h error Derived \<noteq> VObj error" "truthy_value (h error Derived)"
    using processHandlers_reaches_outcome(2) [where c = Base and s = ?s1 and t = Derived
        and pre = ?old and h = h and post = "[]" and e = error] assms in1 hs1 that by simp
  have exact1: "settled (processHandlers ?s1 Derived error)
            = (if h error Derived = VObj error then Rejected error
               else if truthy_value (h error Derived) then Resolved (h error Derived)
               else Pending)"
    if "list_all ?pass ?old"
      "list_all (\<lambda>c. list_all ?pass (exceptionHandlers s c)) (handlersExceptions s)"
    using processHandlers_one_alters [where B = Base and s = ?s1 and t = Derived and e = error
        and pre = ?old and h = h and post = "[]"]
      all_pass_after(1) [OF that(2), of Base h] hs1 in1 assms that(1) by simp
  have exact2: "settled (processHandlers ?s2 Derived error)
            = (if h error Derived = VObj error then Rejected error
               else if truthy_value (h error Derived) then Resolved (h error Derived)
               else Pending)"
    if "list_all ?pass ?old"
      "list_all (\<lambda>c. list_all ?pass (exceptionHandlers s c)) (handlersExceptions s)"
    using processHandlers_one_alters [where B = Base and s = ?s2 and t = Derived and e = error
        and pre = "[]" and h = h and post = ?old]
      all_pass_after(2) [OF that(2), of Base h] hs2 in2 assms that(1) by simp
  show ?thesis
    using first_called first_handled first_resolved last_called last_handled last_resolved
      exact1 exact2
    by (simp add: handleException_handlers handleExceptionFirstly_handlers)
qed

theorem processHandlers_invokes_base_handler_witness:
  "(isPrototypeOf example_Base example_Derived \<or> example_Base = example_Derived)
   \<and> list_all (\<lambda>g. g 7 example_Derived = VObj 7) (exceptionHandlers empty_handlers example_Base)
   \<and> list_all (\<lambda>c. list_all (\<lambda>g. g 7 example_Derived = VObj 7) (exceptionHandlers empty_handlers c))
        (handlersExceptions empty_handlers)
   \<and> constant_handler (VStr ''ok'') 7 example_Derived \<noteq> VObj 7
   \<and> truthy_value (constant_handler (VStr ''ok'') 7 example_Derived)
   \<and> (example_Base, 0) \<in>
        set (calls (processHandlers
              (fst (handleException empty_handlers example_Base (constant_handler (VStr ''ok''))))
              example_Derived 7))
   \<and> handled (processHandlers
              (fst (handleException empty_handlers example_Base (constant_handler (VStr ''ok''))))
              example_Derived 7)
   \<and> settled (processHandlers
              (fst (handleException empty_handlers example_Base (constant_handler (VStr ''ok''))))
              example_Derived 7) = Resolved (VStr ''ok'')
   \<and> settled (processHandlers
              (fst (handleExceptionFirstly empty_handlers example_Base (constant_handler (VStr ''ok''))))
              example_Derived 7) = Resolved (VStr ''ok'')"
proof -
  have a: "isPrototypeOf example_Base example_Derived \<or> example_Base = example_Derived"
    by (simp add: example_Base_def example_Derived_def)
  have b: "list_all (\<lambda>g. g 7 example_Derived = VObj 7) (exceptionHandlers empty_handlers example_Base)"
    by (simp add: exceptionHandlers_def empty_handlers_def)
  have c: "list_all (\<lambda>c. list_all (\<lambda>g. g 7 example_Derived = VObj 7) (exceptionHandlers empty_handlers c))
        (handlersExceptions empty_handlers)"
    by (simp add: empty_handlers_def)
  have d: "constant_handler (VStr ''ok'') 7 example_Derived \<noteq> VObj 7
     \<and> truthy_value (constant_handler (VStr ''ok'') 7 example_Derived)"
    by (simp add: constant_handler_def)
  have e: "snd (handleException empty_handlers example_Base (constant_handler (VStr ''ok'')))
      = (example_Base, 0)"
    by (simp add: handleException_def exceptionHandlers_def empty_handlers_def Let_def)
  from processHandlers_invokes_base_handler [OF a, of empty_handlers "constant_handler (VStr ''ok'')" 7]
  show ?thesis using a b c d e by (simp add: constant_handler_def)
qed

text \<open>
  Claim C9. There are a registry, an exception type and an error for which the promise
  of \<open>processHandlers\<close> stays pending: the type has one handler, it is called, it
  returns a falsy value that is not the error instance, so \<open>handled\<close> is set, \<open>resolve\<close>
  is not called, and \<open>reject\<close> is not called either.
\<close>

theorem processHandlers_never_settles:
  "\<exists>s exceptionType error h.
      exceptionHandlers s exceptionType = [h]
    \<and> \<not> truthy_value (h error exceptionType)
    \<and> h error exceptionType \<noteq> VObj error
    \<and> calls (processHandlers s exceptionType error) = [(exceptionType, 0)]
    \<and> handled (processHandlers s exceptionType error)
    \<and> settled (processHandlers s exceptionType error) = Pending"
proof -
  let ?h = "\<lambda>(e::ref) (t::ctor). VUndefined"
  let ?s = "fst (handleException empty_handlers example_Base ?h)"
  have "exceptionHandlers ?s example_Base = [?h]"
    by (simp add: handleException_def exceptionHandlers_def empty_handlers_def Let_def)
  moreover have "processHandlers ?s example_Base 7
      = \<lparr>handled = True, settled = Pending, calls = [(example_Base, 0)]\<rparr>"
    by (simp add: processHandlers_def handleException_def exceptionHandlers_def
      empty_handlers_def set_add_def Let_def)
  ultimately show ?thesis
    by (intro exI [of _ ?s] exI [of _ example_Base] exI [of _ "7::nat"] exI [of _ ?h]) simp
qed

section \<open>Properties of the composers\<close>

lemma addComposer_present:
  "hasComposer (addComposer n stack st) n"
  by (simp add: addComposer_def hasComposer_def getComposer_def)

lemma getComposer_use:
  "getComposer (use n m st) n =
     Some ((case getComposer st n of None \<Rightarrow> [] | Some ms \<Rightarrow> ms) @ [m])"
  by (simp add: use_def addComposer_def hasComposer_def getComposer_def composer_use_def
      split: option.splits)

lemma getComposer_addComposer_empty:
  "getComposer (addComposer n [] st) n =
     Some (case getComposer st n of None \<Rightarrow> [] | Some ms \<Rightarrow> ms)"
  by (simp add: addComposer_def hasComposer_def getComposer_def split: option.splits)

lemma dom_use: "dom (use n m st) = insert n (dom st)"
  by (auto simp: use_def addComposer_def hasComposer_def getComposer_def
      split: option.splits if_splits)

lemma dom_addComposer: "dom (addComposer n stack st) = insert n (dom st)"
  by (auto simp: addComposer_def hasComposer_def getComposer_def split: if_splits)

text \<open>
  Claim C8. For every composer name \<open>n\<close>: a second \<open>addComposer\<close> for \<open>n\<close> changes
  nothing, whatever stacks the two calls are given. If no composer exists for \<open>n\<close>, then
  two creations and three calls of \<open>use\<close>, in each of three interleavings, leave under
  \<open>n\<close> one composer whose middlewares are the three in the order of the calls; the names
  that have a composer are the earlier ones and \<open>n\<close>; and \<open>compose\<close> for \<open>n\<close> before any
  creation raises the error of line 356.
\<close>

theorem addComposer_idempotent:
  "addComposer n stack' (addComposer n stack st) = addComposer n stack st
   \<and> (getComposer st n = None \<longrightarrow>
        getComposer (use n c (use n b (use n a (addComposer n [] (addComposer n [] st))))) n
          = Some [a, b, c]
      \<and> getComposer (use n c (addComposer n [] (use n b (use n a (addComposer n [] st))))) n
          = Some [a, b, c]
      \<and> getComposer (use n c (addComposer n [] (use n b (addComposer n [] (use n a st))))) n
          = Some [a, b, c]
      \<and> dom (use n c (addComposer n [] (use n b (use n a (addComposer n [] st)))))
          = insert n (dom st)
      \<and> compose run st n ctx = Inl ComposerNotCreated)"
proof (intro conjI impI)
  show "addComposer n stack' (addComposer n stack st) = addComposer n stack st"
    using addComposer_present [of n stack st]
    by (simp add: addComposer_def [of n stack'])
next
  assume "getComposer st n = None"
  then show "getComposer (use n c (use n b (use n a (addComposer n [] (addComposer n [] st))))) n
          = Some [a, b, c]"
    by (simp add: getComposer_use getComposer_addComposer_empty)
next
  assume "getComposer st n = None"
  then show "getComposer (use n c (addComposer n [] (use n b (use n a (addComposer n [] st))))) n
          = Some [a, b, c]"
    by (simp add: getComposer_use getComposer_addComposer_empty)
next
  assume "getComposer st n = None"
  then show "getComposer (use n c (addComposer n [] (use n b (addComposer n [] (use n a st))))) n
          = Some [a, b, c]"
    by (simp add: getComposer_use getComposer_addComposer_empty)
next
  show "dom (use n c (addComposer n [] (use n b (use n a (addComposer n [] st)))))
          = insert n (dom st)"
    by (simp add: dom_use dom_addComposer)
next
  assume "getComposer st n = None"
  then show "compose run st n ctx = Inl ComposerNotCreated"
    by (simp add: compose_def)
qed

theorem addComposer_idempotent_witness:
  "getComposer (Map.empty :: nat composers) ''message'' = None
   \<and> addComposer ''message'' [] (addComposer ''message'' [] Map.empty)
       = (addComposer ''message'' [] Map.empty :: nat composers)
   \<and> getComposer (use ''message'' 3 (addComposer ''message'' []
        (use ''message'' 2 (use ''message'' 1 (addComposer ''message'' [] Map.empty)))))
        ''message'' = Some [1, 2, 3 :: nat]
   \<and> compose (\<lambda>ms c. (ms, c)) (Map.empty :: nat composers) ''message'' (0 :: nat)
       = Inl ComposerNotCreated"
proof -
  have a: "getComposer (Map.empty :: nat composers) ''message'' = None"
    by (simp add: getComposer_def)
  from addComposer_idempotent [where n = "''message''" and st = "Map.empty :: nat composers"
      and stack = "[]" and stack' = "[]" and a = 1 and b = 2 and c = 3
      and run = "\<lambda>ms c. (ms, c)" and ctx = "0 :: nat"] a
  show ?thesis by simp
qed

end
